theory Spec2Isabelle
  imports Complex_Main "HOL-Library.Sublist"
begin

section \<open>Data model\<close>

text \<open>
  The program is \<^verbatim>\<open>src/csv_data_cleaner.py\<close>. It works on pandas data frames. A frame is
  modelled as its row index together with its named columns, in order; a column is its
  storage type (\<^verbatim>\<open>dtype\<close>) and its cells. A cell is the missing marker (NaN, or NaT in a
  date column), a string, an integer, a float that is not NaN, a boolean or a timestamp.
  The type of floats \<open>'f\<close> and of timestamps \<open>'d\<close> stay abstract. Text columns are the
  columns of dtype \<^verbatim>\<open>object\<close>, as \<^verbatim>\<open>read_csv\<close> makes them, and a missing cell is NaN,
  the one missing marker \<^verbatim>\<open>read_csv\<close> produces.
\<close>

datatype dtype = Object | Int64 | Float64 | Boolean | Datetime64

datatype ('f, 'd) cell = Missing | Str string | IntV int | FloatV 'f | BoolV bool | DateV 'd

datatype ('f, 'd) series = Series (dtype: dtype) (cells: "('f, 'd) cell list")

datatype ('f, 'd) table =
  Table (tindex: "int list") (tcols: "(string \<times> ('f, 'd) series) list")

text \<open>
  What the program takes from pandas and from Python's float and timestamp types is a
  parameter of the model:
  \<^item> \<open>float_str\<close>, \<open>timestamp_str\<close>: \<^verbatim>\<open>str(x)\<close> of a float and of a timestamp;
  \<^item> \<open>to_datetime\<close>: \<^verbatim>\<open>pd.to_datetime(val_str)\<close> on one string, \<open>None\<close> when it raises
    \<^verbatim>\<open>ValueError\<close> or \<^verbatim>\<open>TypeError\<close> (the two exceptions line 46 catches);
  \<^item> \<open>coerce_value\<close>: what \<^verbatim>\<open>pd.to_datetime(series, errors='coerce')\<close> makes of one value
    of the series, \<open>None\<close> when the value does not parse;
  \<^item> \<open>column_error\<close>: the message of the exception that the call of line 68 raises on a
    whole column, \<open>None\<close> when it returns.
\<close>

record ('f, 'd) pandas =
  float_str :: "'f \<Rightarrow> string"
  timestamp_str :: "'d \<Rightarrow> string"
  to_datetime :: "string \<Rightarrow> 'd option"
  coerce_value :: "('f, 'd) cell \<Rightarrow> 'd option"
  column_error :: "('f, 'd) series \<Rightarrow> string option"

definition columns :: "('f, 'd) table \<Rightarrow> string list" where
  "columns df = map fst (tcols df)"

definition get_column :: "('f, 'd) table \<Rightarrow> string \<Rightarrow> ('f, 'd) series option" where
  "get_column df col = map_of (tcols df) col"

definition set_column :: "('f, 'd) table \<Rightarrow> string \<Rightarrow> ('f, 'd) series \<Rightarrow> ('f, 'd) table" where
  "set_column df col s =
     Table (tindex df) (map (\<lambda>(n, old). if n = col then (n, s) else (n, old)) (tcols df))"

definition nrows :: "('f, 'd) table \<Rightarrow> nat" where
  "nrows df = length (tindex df)"

definition isna :: "('f, 'd) cell \<Rightarrow> bool" where
  "isna v = (case v of Missing \<Rightarrow> True | _ \<Rightarrow> False)"

text \<open>\<^verbatim>\<open>isinstance(val, (str, int, float))\<close>; a Python \<^verbatim>\<open>bool\<close> is an \<^verbatim>\<open>int\<close>.\<close>

definition is_str_int_float :: "('f, 'd) cell \<Rightarrow> bool" where
  "is_str_int_float v = (case v of DateV _ \<Rightarrow> False | _ \<Rightarrow> True)"

section \<open>Strings\<close>

text \<open>Strings are ASCII strings: \<^verbatim>\<open>lower\<close>, \<^verbatim>\<open>strip\<close> and \<^verbatim>\<open>isdigit\<close> act on ASCII.\<close>

definition lower_char :: "char \<Rightarrow> char" where
  "lower_char c =
     (case map_of (zip ''ABCDEFGHIJKLMNOPQRSTUVWXYZ'' ''abcdefghijklmnopqrstuvwxyz'') c of
        Some d \<Rightarrow> d
      | None \<Rightarrow> c)"

definition lower :: "string \<Rightarrow> string" where
  "lower s = map lower_char s"

definition is_space :: "char \<Rightarrow> bool" where
  "is_space c =
     (c \<in> set [CHR 0x09, CHR 0x0A, CHR 0x0B, CHR 0x0C, CHR 0x0D,
               CHR 0x1C, CHR 0x1D, CHR 0x1E, CHR 0x1F, CHR '' ''])"

definition strip :: "string \<Rightarrow> string" where
  "strip s = rev (dropWhile is_space (rev (dropWhile is_space s)))"

definition is_digit :: "char \<Rightarrow> bool" where
  "is_digit c = (c \<in> set ''0123456789'')"

text \<open>\<^verbatim>\<open>sub in s\<close> on strings.\<close>

fun contains :: "string \<Rightarrow> string \<Rightarrow> bool" where
  "contains sub [] = (sub = [])"
| "contains sub (c # cs) = (prefix sub (c # cs) \<or> contains sub cs)"

function digits :: "nat \<Rightarrow> string" where
  "digits n =
     (if n < 10 then [''0123456789'' ! n]
      else digits (n div 10) @ [''0123456789'' ! (n mod 10)])"
  by pat_completeness auto
termination
  by (relation "measure id") auto

definition str_int :: "int \<Rightarrow> string" where
  "str_int i = (if i < 0 then CHR ''-'' # digits (nat (- i)) else digits (nat i))"

text \<open>\<^verbatim>\<open>str(val)\<close>, and one value under \<^verbatim>\<open>astype(str)\<close>: NaN becomes \<^verbatim>\<open>'nan'\<close>.\<close>

definition py_str :: "('f, 'd) pandas \<Rightarrow> ('f, 'd) cell \<Rightarrow> string" where
  "py_str lib v =
     (case v of
        Missing \<Rightarrow> ''nan''
      | Str s \<Rightarrow> s
      | IntV i \<Rightarrow> str_int i
      | FloatV x \<Rightarrow> float_str lib x
      | BoolV b \<Rightarrow> (if b then ''True'' else ''False'')
      | DateV d \<Rightarrow> timestamp_str lib d)"

section \<open>Date column detector: \<^verbatim>\<open>detect_date_columns\<close>\<close>

definition date_keywords :: "string list" where
  "date_keywords = [''date'', ''time'', ''datetime'', ''timestamp'', ''created'', ''modified'']"

text \<open>Line 16: \<^verbatim>\<open>any(keyword in col_lower for keyword in [...])\<close>.\<close>

definition name_is_datelike :: "string \<Rightarrow> bool" where
  "name_is_datelike col = list_ex (\<lambda>keyword. contains keyword (lower col)) date_keywords"

text \<open>Line 41: a separator out of \<^verbatim>\<open>['-', '/', ':', ' ']\<close> and a digit.\<close>

definition looks_like_date :: "string \<Rightarrow> bool" where
  "looks_like_date val_str =
     (list_ex (\<lambda>sep. sep \<in> set val_str) ''-/: '' \<and> list_ex is_digit val_str)"

text \<open>Lines 33 to 47: the loop over the sampled values, on the two counters.\<close>

fun scan_samples ::
  "('f, 'd) pandas \<Rightarrow> ('f, 'd) cell list \<Rightarrow> nat \<times> nat \<Rightarrow> nat \<times> nat" where
  "scan_samples lib [] (date_indicators, total_sampled) = (date_indicators, total_sampled)"
| "scan_samples lib (val # vals) (date_indicators, total_sampled) =
     (if isna val \<or> \<not> is_str_int_float val
      then scan_samples lib vals (date_indicators, total_sampled)
      else if looks_like_date (py_str lib val)
      then (case to_datetime lib (py_str lib val) of
              Some _ \<Rightarrow> scan_samples lib vals (date_indicators + 1, total_sampled + 1)
            | None \<Rightarrow> scan_samples lib vals (date_indicators, total_sampled + 1))
      else scan_samples lib vals (date_indicators, total_sampled + 1))"

text \<open>Line 25: \<^verbatim>\<open>df[col].dropna().head(20)\<close>.\<close>

definition sample_values :: "('f, 'd) series \<Rightarrow> ('f, 'd) cell list" where
  "sample_values s = take 20 (filter (\<lambda>v. \<not> isna v) (cells s))"

text \<open>
  Lines 25 to 50 for one column. The counters are at most 20, so the float quotient of
  line 50 exceeds the float \<^verbatim>\<open>0.3\<close> exactly when the rational quotient exceeds \<open>3/10\<close>:
  a quotient equal to \<open>3/10\<close> rounds to the float \<^verbatim>\<open>0.3\<close> itself, and any other quotient
  is at least \<open>1/200\<close> away from it.
\<close>

definition content_is_datelike :: "('f, 'd) pandas \<Rightarrow> ('f, 'd) series \<Rightarrow> bool" where
  "content_is_datelike lib s =
     (if length (sample_values s) = 0 then False
      else (case scan_samples lib (sample_values s) (0, 0) of
              (date_indicators, total_sampled) \<Rightarrow>
                total_sampled > 0 \<and>
                (of_nat date_indicators / of_nat total_sampled :: rat) > 3 / 10))"

text \<open>Lines 20 to 51: the loop over the columns, on the list \<^verbatim>\<open>date_columns\<close>.\<close>

fun content_pass ::
  "('f, 'd) pandas \<Rightarrow> ('f, 'd) table \<Rightarrow> string list \<Rightarrow> string list \<Rightarrow> string list" where
  "content_pass lib df [] date_columns = date_columns"
| "content_pass lib df (col # cols) date_columns =
     (if col \<in> set date_columns then content_pass lib df cols date_columns
      else (case get_column df col of
              None \<Rightarrow> content_pass lib df cols date_columns
            | Some s \<Rightarrow>
                if content_is_datelike lib s
                then content_pass lib df cols (date_columns @ [col])
                else content_pass lib df cols date_columns))"

definition detect_date_columns :: "('f, 'd) pandas \<Rightarrow> ('f, 'd) table \<Rightarrow> string list" where
  "detect_date_columns lib df =
     content_pass lib df (columns df) (filter name_is_datelike (columns df))"

text \<open>
  The content rule in the words of the specification: a parse is attempted on a sampled
  value that is a string, integer or float and whose string form has a digit and a
  separator; the column is date-like when the parsed values are more than 0.3 of the
  attempted ones.
\<close>

definition parse_attempted :: "('f, 'd) pandas \<Rightarrow> ('f, 'd) cell \<Rightarrow> bool" where
  "parse_attempted lib v =
     (\<not> isna v \<and> is_str_int_float v \<and> looks_like_date (py_str lib v))"

definition parse_succeeded :: "('f, 'd) pandas \<Rightarrow> ('f, 'd) cell \<Rightarrow> bool" where
  "parse_succeeded lib v =
     (parse_attempted lib v \<and> (case to_datetime lib (py_str lib v) of Some _ \<Rightarrow> True | None \<Rightarrow> False))"

definition parsed_among_attempted :: "('f, 'd) pandas \<Rightarrow> ('f, 'd) series \<Rightarrow> bool" where
  "parsed_among_attempted lib s =
     (length (filter (parse_attempted lib) (sample_values s)) > 0 \<and>
      (of_nat (length (filter (parse_succeeded lib) (sample_values s))) /
       of_nat (length (filter (parse_attempted lib) (sample_values s))) :: rat) > 3 / 10)"

text \<open>The values that line 34 does not skip: the ones that line 38 counts.\<close>

definition counted :: "('f, 'd) cell \<Rightarrow> bool" where
  "counted v = (\<not> isna v \<and> is_str_int_float v)"

definition parsed_among_counted :: "('f, 'd) pandas \<Rightarrow> ('f, 'd) series \<Rightarrow> bool" where
  "parsed_among_counted lib s =
     (length (filter counted (sample_values s)) > 0 \<and>
      (of_nat (length (filter (parse_succeeded lib) (sample_values s))) /
       of_nat (length (filter counted (sample_values s))) :: rat) > 3 / 10)"

section \<open>Date normalizer: \<^verbatim>\<open>convert_to_datetime\<close>\<close>

text \<open>
  Line 68 when it returns: \<^verbatim>\<open>errors='coerce'\<close> turns a value that does not parse into
  NaT, and the new column is a datetime column.
\<close>

definition to_datetime_coerce :: "('f, 'd) pandas \<Rightarrow> ('f, 'd) series \<Rightarrow> ('f, 'd) series" where
  "to_datetime_coerce lib s =
     Series Datetime64
       (map (\<lambda>v. case coerce_value lib v of Some d \<Rightarrow> DateV d | None \<Rightarrow> Missing) (cells s))"

definition warning_text :: "string \<Rightarrow> string \<Rightarrow> string" where
  "warning_text col e =
     ''Warning: Could not convert column '' @ [CHR 0x27] @ col @ [CHR 0x27] @
     '' to datetime: '' @ e"

text \<open>
  Lines 61 to 70: the loop over \<^verbatim>\<open>date_columns\<close>, on the working table and the
  warnings printed so far.
\<close>

fun convert_loop ::
  "('f, 'd) pandas \<Rightarrow> ('f, 'd) table \<Rightarrow> string list \<Rightarrow> string list \<Rightarrow>
     ('f, 'd) table \<times> string list" where
  "convert_loop lib df_converted [] warnings = (df_converted, warnings)"
| "convert_loop lib df_converted (col # cols) warnings =
     (case get_column df_converted col of
        None \<Rightarrow> convert_loop lib df_converted cols warnings
      | Some s \<Rightarrow>
          (case column_error lib s of
             None \<Rightarrow>
               convert_loop lib (set_column df_converted col (to_datetime_coerce lib s)) cols
                 warnings
           | Some e \<Rightarrow>
               convert_loop lib df_converted cols (warnings @ [warning_text col e])))"


section \<open>The objects of the program\<close>

text \<open>
  A data frame is a mutable object. The store maps the address of each object made so
  far to its value; \<open>nxt\<close> is the next free address. \<open>alloc\<close> makes an object
  (\<^verbatim>\<open>df.copy()\<close>, and every pandas call that returns a new frame); \<open>store\<close> writes into
  one (\<^verbatim>\<open>df[col] = ...\<close>).
\<close>

datatype ('f, 'd) heap = Heap (objs: "nat \<Rightarrow> ('f, 'd) table option") (nxt: nat)

definition alloc :: "('f, 'd) table \<Rightarrow> ('f, 'd) heap \<Rightarrow> nat \<times> ('f, 'd) heap" where
  "alloc t h = (nxt h, Heap ((objs h)(nxt h := Some t)) (Suc (nxt h)))"

definition store :: "nat \<Rightarrow> ('f, 'd) table \<Rightarrow> ('f, 'd) heap \<Rightarrow> ('f, 'd) heap" where
  "store r t h = Heap ((objs h)(r := Some t)) (nxt h)"

text \<open>
  Lines 55 to 72. The copy of line 59 is a new object; the assignments of the loop
  write into that object, here as one write of the loop's result. The function returns
  the address of the copy, the warnings it printed and the store.
\<close>

definition convert_to_datetime ::
  "('f, 'd) pandas \<Rightarrow> ('f, 'd) heap \<Rightarrow> nat \<Rightarrow> string list \<Rightarrow>
     (nat \<times> string list \<times> ('f, 'd) heap) option" where
  "convert_to_datetime lib h df date_columns =
     (case objs h df of
        None \<Rightarrow> None
      | Some t \<Rightarrow>
          (case alloc t h of
             (df_converted, h1) \<Rightarrow>
               (case convert_loop lib t date_columns [] of
                  (t', warnings) \<Rightarrow> Some (df_converted, warnings, store df_converted t' h1))))"

section \<open>Text normalizer: lines 93 to 112 of \<^verbatim>\<open>clean_dataframe\<close>\<close>

text \<open>Line 93: \<^verbatim>\<open>select_dtypes(include='object').columns\<close>.\<close>

definition text_columns :: "('f, 'd) table \<Rightarrow> string list" where
  "text_columns df = map fst (filter (\<lambda>(n, s). dtype s = Object) (tcols df))"

definition astype_str :: "('f, 'd) pandas \<Rightarrow> ('f, 'd) series \<Rightarrow> ('f, 'd) series" where
  "astype_str lib s = Series Object (map (\<lambda>v. Str (py_str lib v)) (cells s))"

text \<open>The \<^verbatim>\<open>.str\<close> methods give NaN on a value that is not a string.\<close>

definition str_strip :: "('f, 'd) series \<Rightarrow> ('f, 'd) series" where
  "str_strip s =
     Series Object (map (\<lambda>v. case v of Str x \<Rightarrow> Str (strip x) | _ \<Rightarrow> Missing) (cells s))"

definition str_lower :: "('f, 'd) series \<Rightarrow> ('f, 'd) series" where
  "str_lower s =
     Series Object (map (\<lambda>v. case v of Str x \<Rightarrow> Str (lower x) | _ \<Rightarrow> Missing) (cells s))"

text \<open>\<^verbatim>\<open>replace(text, np.nan)\<close>: the cells equal to the string become NaN.\<close>

definition replace_with_nan :: "string \<Rightarrow> ('f, 'd) series \<Rightarrow> ('f, 'd) series" where
  "replace_with_nan text s =
     Series (dtype s) (map (\<lambda>v. if v = Str text then Missing else v) (cells s))"

text \<open>Lines 99 to 112 on one column; \<open>is_date\<close> is \<^verbatim>\<open>col in date_columns\<close>.\<close>

definition normalize_series ::
  "('f, 'd) pandas \<Rightarrow> bool \<Rightarrow> ('f, 'd) series \<Rightarrow> ('f, 'd) series" where
  "normalize_series lib is_date s =
     replace_with_nan ''none''
       (replace_with_nan ''nan''
          ((if \<not> is_date then str_lower else (\<lambda>x. x)) (str_strip (astype_str lib s))))"

text \<open>What lines 99 to 112 make of one value, for the proofs.\<close>

definition normalize_value :: "('f, 'd) pandas \<Rightarrow> bool \<Rightarrow> ('f, 'd) cell \<Rightarrow> ('f, 'd) cell" where
  "normalize_value lib is_date v =
     (if (if is_date then strip (py_str lib v) else lower (strip (py_str lib v))) = ''nan'' \<or>
         (if is_date then strip (py_str lib v) else lower (strip (py_str lib v))) = ''none''
      then Missing
      else Str (if is_date then strip (py_str lib v) else lower (strip (py_str lib v))))"

text \<open>Lines 96 to 112: the loop over \<^verbatim>\<open>text_columns\<close>, on the working table.\<close>

fun normalize_loop ::
  "('f, 'd) pandas \<Rightarrow> ('f, 'd) table \<Rightarrow> string list \<Rightarrow> string list \<Rightarrow> string list \<Rightarrow>
     ('f, 'd) table" where
  "normalize_loop lib df_cleaned [] exclude_columns date_columns = df_cleaned"
| "normalize_loop lib df_cleaned (col # cols) exclude_columns date_columns =
     (if col \<notin> set exclude_columns
      then (case get_column df_cleaned col of
              None \<Rightarrow> normalize_loop lib df_cleaned cols exclude_columns date_columns
            | Some s \<Rightarrow>
                normalize_loop lib
                  (set_column df_cleaned col (normalize_series lib (col \<in> set date_columns) s))
                  cols exclude_columns date_columns)
      else normalize_loop lib df_cleaned cols exclude_columns date_columns)"

definition text_normalizer ::
  "('f, 'd) pandas \<Rightarrow> ('f, 'd) table \<Rightarrow> string list \<Rightarrow> string list \<Rightarrow> ('f, 'd) table" where
  "text_normalizer lib df date_columns exclude_columns =
     normalize_loop lib df (text_columns df) exclude_columns date_columns"

section \<open>Row reducer: lines 114 to 128 of \<^verbatim>\<open>clean_dataframe\<close>\<close>

definition row_at :: "('f, 'd) table \<Rightarrow> nat \<Rightarrow> ('f, 'd) cell list" where
  "row_at df i = map (\<lambda>(n, s). cells s ! i) (tcols df)"

definition rows :: "('f, 'd) table \<Rightarrow> ('f, 'd) cell list list" where
  "rows df = map (row_at df) [0..<nrows df]"

text \<open>The rows at the positions \<open>keep\<close>, with their index labels.\<close>

definition take_rows :: "nat list \<Rightarrow> ('f, 'd) table \<Rightarrow> ('f, 'd) table" where
  "take_rows keep df =
     Table (map ((!) (tindex df)) keep)
       (map (\<lambda>(n, s). (n, Series (dtype s) (map ((!) (cells s)) keep))) (tcols df))"

text \<open>\<^verbatim>\<open>dropna(how='all')\<close> keeps the rows with a value that is not missing.\<close>

definition dropna_all :: "('f, 'd) table \<Rightarrow> ('f, 'd) table" where
  "dropna_all df =
     take_rows (filter (\<lambda>i. list_ex (\<lambda>v. \<not> isna v) (row_at df i)) [0..<nrows df]) df"

text \<open>\<^verbatim>\<open>drop_duplicates()\<close> keeps the rows that no row above them equals.\<close>

definition drop_duplicates :: "('f, 'd) table \<Rightarrow> ('f, 'd) table" where
  "drop_duplicates df =
     take_rows
       (filter (\<lambda>i. \<not> list_ex (\<lambda>j. row_at df j = row_at df i) [0..<i]) [0..<nrows df]) df"

definition reset_index :: "('f, 'd) table \<Rightarrow> ('f, 'd) table" where
  "reset_index df = Table (map int [0..<nrows df]) (tcols df)"

definition row_reducer :: "('f, 'd) table \<Rightarrow> ('f, 'd) table" where
  "row_reducer df = reset_index (drop_duplicates (dropna_all df))"

text \<open>
  The row reducer in the words of the specification, on the list of rows: the rows
  whose values are all missing go first, then every row equal to a row that survived
  before it.
\<close>

definition all_missing :: "('f, 'd) cell list \<Rightarrow> bool" where
  "all_missing row = list_all isna row"

fun keep_first :: "'a list \<Rightarrow> 'a list \<Rightarrow> 'a list" where
  "keep_first seen [] = []"
| "keep_first seen (r # rs) =
     (if r \<in> set seen then keep_first seen rs else r # keep_first (seen @ [r]) rs)"

definition reduce_rows :: "('f, 'd) cell list list \<Rightarrow> ('f, 'd) cell list list" where
  "reduce_rows rs = keep_first [] (filter (\<lambda>row. \<not> all_missing row) rs)"

text \<open>A table is well formed: its column names differ, its columns are as long as its index.\<close>

definition wf_table :: "('f, 'd) table \<Rightarrow> bool" where
  "wf_table df =
     (distinct (columns df) \<and> list_all (\<lambda>(n, s). length (cells s) = nrows df) (tcols df))"

section \<open>The pipeline: \<^verbatim>\<open>clean_dataframe\<close>\<close>

text \<open>The numbers and lists that the function prints.\<close>

record metrics =
  initial_rows :: int
  initial_cols :: int
  detected_date_columns :: "string list"
  detected_text_columns :: "string list"
  all_nan_removed :: int
  duplicates_removed :: int
  final_rows :: int
  final_cols :: int
  total_rows_removed :: int

text \<open>
  Lines 74 to 135. Each pandas call that returns a frame makes a new object and the
  variable \<^verbatim>\<open>df_cleaned\<close> moves to it; the assignments of lines 99 to 112 write into the
  object that \<^verbatim>\<open>df_cleaned\<close> names at that point, here as one write of the loop's result.
  The function returns the address of the cleaned frame, the values of its own print
  calls and the store; \<open>None\<close> when \<open>df\<close> is not the address of a frame.
\<close>

definition clean_dataframe ::
  "('f, 'd) pandas \<Rightarrow> ('f, 'd) heap \<Rightarrow> nat \<Rightarrow> string list \<Rightarrow>
     (nat \<times> metrics \<times> ('f, 'd) heap) option" where
  "clean_dataframe lib h df exclude_columns =
     (case objs h df of
        None \<Rightarrow> None
      | Some t0 \<Rightarrow>
          (case alloc t0 h of
             (df_cleaned1, h1) \<Rightarrow>
               (case objs h1 df_cleaned1 of
                  None \<Rightarrow> None
                | Some t1 \<Rightarrow>
                    (case convert_to_datetime lib h1 df_cleaned1 (detect_date_columns lib t1) of
                       None \<Rightarrow> None
                     | Some (df_cleaned2, warnings, h2) \<Rightarrow>
                         (case objs h2 df_cleaned2 of
                            None \<Rightarrow> None
                          | Some t2 \<Rightarrow>
                              (let date_columns = detect_date_columns lib t1;
                                   t3 = text_normalizer lib t2 date_columns exclude_columns;
                                   h3 = store df_cleaned2 t3 h2;
                                   t4 = dropna_all t3;
                                   t5 = drop_duplicates t4;
                                   t6 = reset_index t5
                               in (case alloc t4 h3 of
                                     (df_cleaned4, h4) \<Rightarrow>
                                       (case alloc t5 h4 of
                                          (df_cleaned5, h5) \<Rightarrow>
                                            (case alloc t6 h5 of
                                               (df_cleaned6, h6) \<Rightarrow>
                                                 Some
                                                   (df_cleaned6,
                                                    \<lparr> initial_rows = int (nrows t1),
                                                      initial_cols = int (length (columns t1)),
                                                      detected_date_columns = date_columns,
                                                      detected_text_columns = text_columns t2,
                                                      all_nan_removed =
                                                        int (nrows t1) - int (nrows t4),
                                                      duplicates_removed =
                                                        int (nrows t4) - int (nrows t5),
                                                      final_rows = int (nrows t6),
                                                      final_cols = int (length (columns t6)),
                                                      total_rows_removed =
                                                        int (nrows t1) - int (nrows t6) \<rparr>,
                                                    h6))))))))))"

text \<open>The working frame when line 114 is reached, for the statements about the pipeline.\<close>

definition normalized_table ::
  "('f, 'd) pandas \<Rightarrow> ('f, 'd) table \<Rightarrow> string list \<Rightarrow> ('f, 'd) table" where
  "normalized_table lib t exclude_columns =
     text_normalizer lib
       (fst (convert_loop lib t (detect_date_columns lib t) []))
       (detect_date_columns lib t) exclude_columns"

section \<open>Column-wise view of the two loops\<close>

text \<open>The table with \<open>g\<close> applied to the columns named in \<open>cols\<close>: what a loop of column
  assignments comes to.\<close>

definition map_columns ::
  "(string \<Rightarrow> ('f, 'd) series \<Rightarrow> ('f, 'd) series) \<Rightarrow> string list \<Rightarrow> ('f, 'd) table \<Rightarrow> ('f, 'd) table" where
  "map_columns g cols df =
     Table (tindex df) (map (\<lambda>(n, s). (n, if n \<in> set cols then g n s else s)) (tcols df))"

section \<open>An instance of the library, for the examples\<close>

text \<open>
  Floats and timestamps are written as their text. The example parser reads the form
  \<^verbatim>\<open>dddd-dd-dd\<close> only.
\<close>

definition iso_date :: "string \<Rightarrow> bool" where
  "iso_date s =
     (length s = 10 \<and> list_all is_digit (take 4 s) \<and> s ! 4 = CHR ''-'' \<and>
      list_all is_digit (take 2 (drop 5 s)) \<and> s ! 7 = CHR ''-'' \<and>
      list_all is_digit (drop 8 s))"

definition example_lib :: "(string, string) pandas" where
  "example_lib =
     \<lparr> float_str = (\<lambda>x. x),
       timestamp_str = (\<lambda>d. d),
       to_datetime = (\<lambda>s. if iso_date s then Some s else None),
       coerce_value = (\<lambda>v. case v of Str s \<Rightarrow> (if iso_date s then Some s else None)
                                   | DateV d \<Rightarrow> Some d
                                   | _ \<Rightarrow> None),
       column_error = (\<lambda>s. if dtype s = Boolean then Some ''bool is not convertible to datetime''
                            else None) \<rparr>"

text \<open>The same library when the call of line 68 raises on every column.\<close>

definition raising_lib :: "(string, string) pandas" where
  "raising_lib = example_lib \<lparr> column_error := (\<lambda>s. Some ''conversion failed'') \<rparr>"

definition mixed_series :: "(string, string) series" where
  "mixed_series = Series Object [Str ''2023-01-05'', Str ''abc'', Str ''abc'', Str ''abc'']"

definition mixed_table :: "(string, string) table" where
  "mixed_table = Table [0, 1, 2, 3] [(''val'', mixed_series)]"

definition boundary_series :: "(string, string) series" where
  "boundary_series =
     Series Object
       [Str ''2023-01-05'', Str ''2023-01-06'', Str ''2023-01-07'', Str ''abc'', Str ''abc'',
        Str ''abc'', Str ''abc'', Str ''abc'', Str ''abc'', Str ''abc'']"

definition boundary_table :: "(string, string) table" where
  "boundary_table = Table [0, 1, 2, 3, 4, 5, 6, 7, 8, 9] [(''val'', boundary_series)]"

definition orders_table :: "(string, string) table" where
  "orders_table =
     Table [0, 1, 2]
       [(''OrderDate'', Series Object [Str ''2023-01-05'', Str ''2023-01-05'', Missing]),
        (''Name'', Series Object [Str '' Alice '', Str ''alice'', Missing]),
        (''Qty'', Series Float64 [FloatV ''5.0'', FloatV ''5.0'', Missing])]"

definition events_table :: "(string, string) table" where
  "events_table =
     Table [0, 1, 2]
       [(''created'', Series Object [Str ''2023-01-05'', Str ''soon'', Missing]),
        (''modified'', Series Boolean [BoolV True, BoolV False, BoolV True]),
        (''Name'', Series Object [Str '' Bob'', Str ''NaN'', Str ''None''])]"


definition stamped_table :: "(string, string) table" where
  "stamped_table =
     Table [0, 1, 2]
       [(''timestamp'', Series Object [Str '' 2023-01-05 '', Str ''None'', Str ''none'']),
        (''ID'', Series Object [Str '' Ab1 '', Str ''NaN'', Str ''cD2'']),
        (''Qty'', Series Int64 [IntV 5, IntV 7, IntV 5])]"

definition names_table :: "(string, string) table" where
  "names_table =
     Table [0, 1, 2, 3, 4]
       [(''Name'', Series Object [Str ''alice'', Missing, Str ''alice'', Str ''bob'', Missing]),
        (''Qty'', Series Float64 [FloatV ''5.0'', Missing, FloatV ''5.0'', Missing, Missing])]"

definition orders_heap :: "(string, string) heap" where
  "orders_heap = Heap (\<lambda>r. if r = 0 then Some orders_table else None) 1"

section \<open>The detector: name pass\<close>

lemma content_pass_keeps: "c \<in> set dc \<Longrightarrow> c \<in> set (content_pass lib df cols dc)"
  by (induction cols arbitrary: dc) (auto split: option.splits)

lemma content_pass_count:
  "c \<in> set dc \<Longrightarrow> count_list (content_pass lib df cols dc) c = count_list dc c"
  by (induction cols arbitrary: dc) (auto split: option.splits)

lemma count_list_filter_same: "P c \<Longrightarrow> count_list (filter P xs) c = count_list xs c"
  by (induction xs) auto

text \<open>
  C2. A column of the table whose lower-cased name contains one of the keywords
  date, time, datetime, timestamp, created, modified is in the detector's result, for
  every content of the table and every behaviour of the date parser; the content pass
  skips it, so it is in the result as often as it is among the column names, not once
  more.
\<close>

theorem name_match_is_datelike:
  assumes "col \<in> set (columns df)" and "name_is_datelike col"
  shows "col \<in> set (detect_date_columns lib df) \<and>
         count_list (detect_date_columns lib df) col = count_list (columns df) col"
proof -
  from assms have m: "col \<in> set (filter name_is_datelike (columns df))"
    by simp
  have "col \<in> set (detect_date_columns lib df)"
    unfolding detect_date_columns_def using m by (rule content_pass_keeps)
  moreover have "count_list (detect_date_columns lib df) col = count_list (columns df) col"
    unfolding detect_date_columns_def
    using content_pass_count [OF m, of lib df "columns df"] assms(2)
    by (simp add: count_list_filter_same)
  ultimately show ?thesis by simp
qed

theorem name_match_is_datelike_witness:
  "''OrderDate'' \<in> set (columns orders_table) \<and> name_is_datelike ''OrderDate'' \<and>
   ''OrderDate'' \<in> set (detect_date_columns example_lib orders_table) \<and>
   count_list (detect_date_columns example_lib orders_table) ''OrderDate'' =
     count_list (columns orders_table) ''OrderDate''"
proof -
  have h1: "''OrderDate'' \<in> set (columns orders_table)" by code_simp
  have h2: "name_is_datelike ''OrderDate''" by code_simp
  show ?thesis
    using h1 h2 name_match_is_datelike [OF h1 h2, of example_lib] by blast
qed

section \<open>The detector: content pass\<close>

lemma scan_samples_counts:
  "scan_samples lib vals (a, b) =
     (a + length (filter (parse_succeeded lib) vals), b + length (filter counted vals))"
  by (induction vals arbitrary: a b)
     (auto simp: parse_succeeded_def parse_attempted_def counted_def split: option.splits)

lemma content_is_datelike_counted: "content_is_datelike lib s = parsed_among_counted lib s"
  by (auto simp: content_is_datelike_def parsed_among_counted_def scan_samples_counts)

lemma content_pass_member:
  "c \<in> set (content_pass lib df cols dc) \<longleftrightarrow>
     c \<in> set dc \<or>
     (c \<in> set cols \<and> (\<exists>s. get_column df c = Some s \<and> content_is_datelike lib s))"
proof (induction cols arbitrary: dc)
  case Nil
  show ?case by simp
next
  case (Cons col cols)
  show ?case
  proof (cases "col \<in> set dc")
    case True
    then show ?thesis using Cons.IH [of dc] by auto
  next
    case fresh: False
    show ?thesis
    proof (cases "get_column df col")
      case None
      then show ?thesis using fresh Cons.IH [of dc] by auto
    next
      case (Some s)
      show ?thesis
      proof (cases "content_is_datelike lib s")
        case True
        then show ?thesis using fresh Some Cons.IH [of "dc @ [col]"] by auto
      next
        case False
        then show ?thesis using fresh Some Cons.IH [of dc] by auto
      qed
    qed
  qed
qed

lemma get_column_in_columns: "get_column df col = Some s \<Longrightarrow> col \<in> set (columns df)"
  unfolding get_column_def columns_def by (auto dest!: map_of_SomeD intro: rev_image_eqI)

lemma detect_member_content:
  assumes "get_column df col = Some s" and "\<not> name_is_datelike col"
  shows "col \<in> set (detect_date_columns lib df) \<longleftrightarrow> parsed_among_counted lib s"
  using assms get_column_in_columns [OF assms(1)]
  by (simp add: detect_date_columns_def content_pass_member content_is_datelike_counted)

lemma exactly_three_tenths:
  "10 * a = 3 * (b::nat) \<Longrightarrow> \<not> (of_nat a / of_nat b :: rat) > 3 / 10"
proof (cases "b = 0")
  case True
  then show ?thesis by simp
next
  case False
  assume "10 * a = 3 * b"
  then have "(of_nat (10 * a) :: rat) = of_nat (3 * b)" by simp
  then have "(10 :: rat) * of_nat a = 3 * of_nat b" by simp
  with False have "(of_nat a / of_nat b :: rat) = 3 / 10" by (simp add: field_simps)
  then show ?thesis by simp
qed

lemma no_attempt_no_success:
  "filter (parse_attempted lib) vals = [] \<Longrightarrow> filter (parse_succeeded lib) vals = []"
  by (auto simp: filter_empty_conv parse_succeeded_def)

text \<open>
  C1, as the specification words it: a column that the name pass left out is
  date-like exactly when the parsed samples are more than 0.3 of the samples on which
  a parse was attempted. The program does otherwise on the column
  \<^verbatim>\<open>["2023-01-05", "abc", "abc", "abc"]\<close>: one parse attempted, one parsed, so the
  rule as worded classifies the column, and the program, which divides by the four
  sampled values, does not.
\<close>

theorem content_rule_attempted_counterexample:
  "\<not> (''val'' \<in> set (detect_date_columns example_lib mixed_table) \<longleftrightarrow>
      parsed_among_attempted example_lib mixed_series)"
  by code_simp

text \<open>
  C1, amended. For a column that the name pass left out, with \<open>sample\<close> its first 20
  non-missing values: a sampled value is parsed only when it is a string, integer or
  float whose string form has a digit and a separator out of - / : and space
  (\<open>parse_succeeded\<close> holds of no other value); the column is date-like exactly when the
  number of parsed samples divided by the number of sampled strings, integers and
  floats, parse attempted or not, is more than 0.3; at exactly 0.3 it is not date-like;
  with no sample on which a parse is attempted it is not date-like.
\<close>

theorem content_rule_counted:
  assumes "get_column df col = Some s" and "\<not> name_is_datelike col"
  shows "(col \<in> set (detect_date_columns lib df) \<longleftrightarrow> parsed_among_counted lib s) \<and>
         (10 * length (filter (parse_succeeded lib) (sample_values s)) =
            3 * length (filter counted (sample_values s)) \<longrightarrow>
          col \<notin> set (detect_date_columns lib df)) \<and>
         (filter (parse_attempted lib) (sample_values s) = [] \<longrightarrow>
          col \<notin> set (detect_date_columns lib df))"
proof -
  have m: "col \<in> set (detect_date_columns lib df) \<longleftrightarrow> parsed_among_counted lib s"
    using assms by (rule detect_member_content)
  have b: "10 * length (filter (parse_succeeded lib) (sample_values s)) =
            3 * length (filter counted (sample_values s)) \<Longrightarrow> \<not> parsed_among_counted lib s"
    unfolding parsed_among_counted_def using exactly_three_tenths by blast
  have z: "filter (parse_attempted lib) (sample_values s) = [] \<Longrightarrow> \<not> parsed_among_counted lib s"
    unfolding parsed_among_counted_def by (simp add: no_attempt_no_success)
  show ?thesis using m b z by blast
qed

theorem content_rule_counted_witness:
  "get_column boundary_table ''val'' = Some boundary_series \<and>
   \<not> name_is_datelike ''val'' \<and>
   10 * length (filter (parse_succeeded example_lib) (sample_values boundary_series)) =
     3 * length (filter counted (sample_values boundary_series)) \<and>
   ''val'' \<notin> set (detect_date_columns example_lib boundary_table)"
proof -
  have h1: "get_column boundary_table ''val'' = Some boundary_series" by code_simp
  have h2: "\<not> name_is_datelike ''val''" by code_simp
  have h3: "10 * length (filter (parse_succeeded example_lib) (sample_values boundary_series)) =
     3 * length (filter counted (sample_values boundary_series))" by code_simp
  show ?thesis
    using h1 h2 h3 content_rule_counted [OF h1 h2, of example_lib] by blast
qed

section \<open>The loops of column assignments\<close>

lemma columns_map_columns: "columns (map_columns g cols df) = columns df"
  by (simp add: map_columns_def columns_def split_def o_def)


lemma map_columns_Nil: "map_columns g [] df = df"
  by (simp add: map_columns_def split_def)

lemma set_column_map_columns:
  assumes "distinct (columns df)" and "get_column df col = Some s"
  shows "set_column df col (g col s) = map_columns g [col] df"
proof -
  have "\<And>n old. (n, old) \<in> set (tcols df) \<Longrightarrow> n = col \<Longrightarrow> old = s"
    using assms unfolding columns_def get_column_def by (metis map_of_is_SomeI option.inject)
  then show ?thesis
    unfolding set_column_def map_columns_def by (auto simp: split_def)
qed

lemma map_columns_absent:
  assumes "get_column df col = None"
  shows "map_columns g (col # cols) df = map_columns g cols df"
proof -
  have "\<forall>p \<in> set (tcols df). fst p \<noteq> col"
    using assms unfolding get_column_def by (metis map_of_eq_None_iff image_eqI)
  then show ?thesis
    unfolding map_columns_def by (simp add: split_def)
qed

lemma map_columns_step:
  assumes "col \<notin> set cols"
  shows "map_columns g cols (map_columns g [col] df) = map_columns g (col # cols) df"
  using assms unfolding map_columns_def by (auto simp: split_def)

lemma map_of_map_named:
  "map_of (map (\<lambda>(n, s). (n, f n s)) xs) c = map_option (f c) (map_of xs c)"
  by (induction xs) auto

lemma get_column_map_columns:
  "get_column (map_columns g cols df) c =
     (if c \<in> set cols then map_option (g c) (get_column df c) else get_column df c)"
proof -
  have "get_column (map_columns g cols df) c =
          map_option (\<lambda>s. if c \<in> set cols then g c s else s) (get_column df c)"
    unfolding get_column_def map_columns_def
    using map_of_map_named [of "\<lambda>n s. if n \<in> set cols then g n s else s" "tcols df" c]
    by simp
  then show ?thesis by (simp add: option.map_ident)
qed

lemma map_columns_unchanged:
  assumes "distinct (columns df)" and "get_column df col = Some s" and "g col s = s"
  shows "map_columns g (col # cols) df = map_columns g cols df"
proof -
  have "\<forall>p \<in> set (tcols df). fst p = col \<longrightarrow> g col (snd p) = snd p"
    using assms unfolding columns_def get_column_def
    by (metis map_of_is_SomeI option.inject prod.collapse)
  then show ?thesis
    unfolding map_columns_def by (auto simp: split_def)
qed

lemma convert_loop_table:
  assumes "distinct (columns df)" and "distinct cols"
  shows "fst (convert_loop lib df cols ws) =
           map_columns (\<lambda>n s. case column_error lib s of None \<Rightarrow> to_datetime_coerce lib s | Some e \<Rightarrow> s)
             cols df"
  using assms
proof (induction cols arbitrary: df ws)
  case Nil
  show ?case by (simp add: map_columns_Nil)
next
  case (Cons col cols)
  let ?g = "\<lambda>(n::string) s. case column_error lib s of None \<Rightarrow> to_datetime_coerce lib s | Some e \<Rightarrow> s"
  from Cons.prems have d: "distinct cols" and nin: "col \<notin> set cols" by simp_all
  show ?case
  proof (cases "get_column df col")
    case None
    then show ?thesis
      using Cons.IH [OF Cons.prems(1) d] by (simp add: map_columns_absent)
  next
    case (Some s)
    have step: "map_columns ?g cols (map_columns ?g [col] df) = map_columns ?g (col # cols) df"
      using nin by (rule map_columns_step)
    have sc: "set_column df col (?g col s) = map_columns ?g [col] df"
      using Cons.prems(1) Some by (rule set_column_map_columns)
    have dd: "distinct (columns (map_columns ?g [col] df))"
      using Cons.prems(1) by (simp add: columns_map_columns)
    show ?thesis
    proof (cases "column_error lib s")
      case None
      with sc have "set_column df col (to_datetime_coerce lib s) = map_columns ?g [col] df"
        by simp
      then show ?thesis
        using Some None Cons.IH [OF dd d] step by simp
    next
      case (Some e)
      have "map_columns ?g (col # cols) df = map_columns ?g cols df"
        using Cons.prems(1) \<open>get_column df col = Some s\<close>
        by (rule map_columns_unchanged) (simp add: Some)
      then show ?thesis
        using \<open>get_column df col = Some s\<close> Some Cons.IH [OF Cons.prems(1) d] by simp
    qed
  qed
qed

section \<open>The date normalizer\<close>





section \<open>Trimming, lower case and the normalisation of one column\<close>

lemma lower_char_idem: "lower_char (lower_char c) = lower_char c"
  by (simp add: lower_char_def)

lemma lower_char_space: "is_space (lower_char c) = is_space c"
  by (simp add: lower_char_def is_space_def)

lemma lower_idem: "lower (lower s) = lower s"
  by (simp add: lower_def lower_char_idem)

lemma dropWhile_snoc_keeps: "\<not> P x \<Longrightarrow> \<exists>ys. dropWhile P (zs @ [x]) = ys @ [x]"
  by (induction zs) auto

lemma ltrim_strip: "dropWhile is_space (strip s) = strip s"
proof (cases "dropWhile is_space s")
  case Nil
  show ?thesis unfolding strip_def Nil by simp
next
  case (Cons c cs)
  have "\<not> is_space (hd (dropWhile is_space s))"
    by (rule hd_dropWhile) (simp add: Cons)
  then have nc: "\<not> is_space c"
    by (simp add: Cons)
  from dropWhile_snoc_keeps [of is_space c "rev cs", OF nc]
  obtain ys where ys: "dropWhile is_space (rev cs @ [c]) = ys @ [c]" ..
  have "strip s = c # rev ys"
    unfolding strip_def Cons by (simp add: ys)
  then show ?thesis using nc by simp
qed

lemma strip_idem: "strip (strip s) = strip s"
proof -
  have "strip (strip s) = rev (dropWhile is_space (rev (strip s)))"
    unfolding strip_def [of "strip s"] by (simp add: ltrim_strip)
  also have "\<dots> = strip s"
    by (simp add: strip_def)
  finally show ?thesis .
qed

lemma strip_lower: "strip (lower s) = lower (strip s)"
proof -
  have c: "is_space \<circ> lower_char = is_space"
    by (rule ext) (simp add: lower_char_space)
  have l: "dropWhile is_space (map lower_char xs) = map lower_char (dropWhile is_space xs)" for xs
    by (simp add: dropWhile_map c)
  show ?thesis
    by (simp add: strip_def lower_def l rev_map)
qed

lemma strip_nan: "strip ''nan'' = ''nan''"
  by code_simp

lemma lower_nan: "lower ''nan'' = ''nan''"
  by code_simp

lemma normalize_series_cells:
  "normalize_series lib is_date s = Series Object (map (normalize_value lib is_date) (cells s))"
  by (cases is_date)
     (simp_all add: normalize_series_def replace_with_nan_def str_lower_def str_strip_def
        astype_str_def normalize_value_def)

lemma normalize_value_idem:
  "normalize_value lib is_date (normalize_value lib is_date v) = normalize_value lib is_date v"
proof -
  define y where "y = (if is_date then strip (py_str lib v) else lower (strip (py_str lib v)))"
  have sy: "strip y = y"
    unfolding y_def using strip_idem strip_lower by (metis (full_types))
  have ly: "\<not> is_date \<Longrightarrow> lower y = y"
    unfolding y_def by (simp add: lower_idem)
  have m: "normalize_value lib is_date (Missing :: ('a, 'b) cell) = Missing"
    by (simp add: normalize_value_def py_str_def strip_nan lower_nan)
  have st: "y \<noteq> ''nan'' \<Longrightarrow> y \<noteq> ''none'' \<Longrightarrow>
            normalize_value lib is_date (Str y :: ('a, 'b) cell) = Str y"
    using sy ly by (cases is_date) (simp_all add: normalize_value_def py_str_def)
  show ?thesis
  proof (cases "y = ''nan'' \<or> y = ''none''")
    case True
    then have "normalize_value lib is_date v = Missing"
      unfolding y_def normalize_value_def by presburger
    then show ?thesis using m by simp
  next
    case False
    then have "normalize_value lib is_date v = Str y"
      unfolding y_def normalize_value_def by presburger
    then show ?thesis using st False by simp
  qed
qed

lemma normalize_series_idem:
  "normalize_series lib is_date (normalize_series lib is_date s) = normalize_series lib is_date s"
  by (simp add: normalize_series_cells normalize_value_idem)

lemma dtype_normalize_series: "dtype (normalize_series lib is_date s) = Object"
  by (simp add: normalize_series_cells)

section \<open>The text normalizer\<close>

lemma normalize_loop_table:
  assumes "distinct (columns df)" and "distinct cols"
  shows "normalize_loop lib df cols ex dc =
           map_columns (\<lambda>n s. if n \<notin> set ex then normalize_series lib (n \<in> set dc) s else s) cols df"
  using assms
proof (induction cols arbitrary: df)
  case Nil
  show ?case by (simp add: map_columns_Nil)
next
  case (Cons col cols)
  let ?g = "\<lambda>(n::string) s. if n \<notin> set ex then normalize_series lib (n \<in> set dc) s else s"
  from Cons.prems have d: "distinct cols" and nin: "col \<notin> set cols" by simp_all
  show ?case
  proof (cases "get_column df col")
    case None
    then show ?thesis
      using Cons.IH [OF Cons.prems(1) d] by (simp add: map_columns_absent)
  next
    case (Some s)
    show ?thesis
    proof (cases "col \<in> set ex")
      case True
      have "map_columns ?g (col # cols) df = map_columns ?g cols df"
        using Cons.prems(1) Some by (rule map_columns_unchanged) (simp add: True)
      then show ?thesis
        using True Cons.IH [OF Cons.prems(1) d] by simp
    next
      case False
      have step: "map_columns ?g cols (map_columns ?g [col] df) = map_columns ?g (col # cols) df"
        using nin by (rule map_columns_step)
      have sc: "set_column df col (?g col s) = map_columns ?g [col] df"
        using Cons.prems(1) Some by (rule set_column_map_columns)
      then have sc': "set_column df col (normalize_series lib (col \<in> set dc) s) =
                      map_columns ?g [col] df"
        using False by simp
      have dd: "distinct (columns (map_columns ?g [col] df))"
        using Cons.prems(1) by (simp add: columns_map_columns)
      show ?thesis
        using Some False sc' Cons.IH [OF dd d] step by simp
    qed
  qed
qed

lemma distinct_text_columns: "distinct (columns df) \<Longrightarrow> distinct (text_columns df)"
  unfolding columns_def text_columns_def by (rule distinct_map_filter)

lemma text_columns_member:
  assumes "distinct (columns df)" and "get_column df c = Some s"
  shows "c \<in> set (text_columns df) \<longleftrightarrow> dtype s = Object"
proof -
  have in_s: "(c, s) \<in> set (tcols df)"
    using assms(2) unfolding get_column_def by (rule map_of_SomeD)
  have uniq: "\<And>s'. (c, s') \<in> set (tcols df) \<Longrightarrow> s' = s"
    using assms unfolding columns_def get_column_def
    by (metis map_of_is_SomeI option.inject)
  show ?thesis
  proof
    assume "c \<in> set (text_columns df)"
    then have "c \<in> fst ` set (filter (\<lambda>(n, s). dtype s = Object) (tcols df))"
      by (simp add: text_columns_def)
    then obtain p where p: "p \<in> set (filter (\<lambda>(n, s). dtype s = Object) (tcols df))" and "c = fst p"
      by (rule imageE)
    then have "(c, snd p) \<in> set (tcols df)" and "dtype (snd p) = Object"
      by (simp_all add: split_def)
    then obtain s' where "(c, s') \<in> set (tcols df)" and "dtype s' = Object"
      by blast
    then show "dtype s = Object" using uniq by blast
  next
    assume "dtype s = Object"
    then have "(c, s) \<in> set (filter (\<lambda>(n, s). dtype s = Object) (tcols df))"
      using in_s by simp
    then have "fst (c, s) \<in> fst ` set (filter (\<lambda>(n, s). dtype s = Object) (tcols df))"
      by (rule imageI)
    then show "c \<in> set (text_columns df)"
      by (simp add: text_columns_def)
  qed
qed

lemma text_normalizer_table:
  assumes "distinct (columns df)"
  shows "text_normalizer lib df dc ex =
           map_columns (\<lambda>n s. if n \<notin> set ex then normalize_series lib (n \<in> set dc) s else s)
             (text_columns df) df"
  unfolding text_normalizer_def
  using assms distinct_text_columns [OF assms] by (rule normalize_loop_table)

lemma get_column_text_normalizer:
  assumes "distinct (columns df)" and "get_column df c = Some s"
  shows "get_column (text_normalizer lib df dc ex) c =
           Some (if dtype s = Object \<and> c \<notin> set ex
                 then normalize_series lib (c \<in> set dc) s else s)"
  using assms text_columns_member [OF assms]
  by (simp add: text_normalizer_table get_column_map_columns)

lemma map_columns_twice:
  "map_columns g cols (map_columns g cols df) = map_columns (\<lambda>n s. g n (g n s)) cols df"
  by (simp add: map_columns_def split_def comp_def)

lemma text_columns_map_columns:
  assumes "distinct (columns df)" and "\<And>n s. dtype s = Object \<Longrightarrow> dtype (g n s) = Object"
  shows "text_columns (map_columns g (text_columns df) df) = text_columns df"
proof -
  let ?T = "set (text_columns df)"
  let ?f = "\<lambda>p :: string \<times> ('a, 'b) series. (fst p, if fst p \<in> ?T then g (fst p) (snd p) else snd p)"
  let ?P = "\<lambda>p :: string \<times> ('a, 'b) series. dtype (snd p) = Object"
  have same: "?P (?f p) = ?P p" if "p \<in> set (tcols df)" for p
  proof (cases "fst p \<in> ?T")
    case True
    have "get_column df (fst p) = Some (snd p)"
      using assms(1) that unfolding get_column_def columns_def by simp
    then have "dtype (snd p) = Object"
      using text_columns_member [OF assms(1)] True by blast
    then show ?thesis using True assms(2) by simp
  next
    case False
    then show ?thesis by simp
  qed
  have "filter ?P (map ?f (tcols df)) = map ?f (filter (?P \<circ> ?f) (tcols df))"
    by (rule filter_map)
  also have "filter (?P \<circ> ?f) (tcols df) = filter ?P (tcols df)"
  proof (rule filter_cong)
    show "tcols df = tcols df" ..
  next
    fix p assume "p \<in> set (tcols df)"
    then have "?P (?f p) = ?P p" by (rule same)
    then show "(?P \<circ> ?f) p = ?P p" unfolding comp_def .
  qed
  finally have "map fst (filter ?P (map ?f (tcols df))) = map fst (filter ?P (tcols df))"
    by (simp add: comp_def)
  then show ?thesis
    by (simp add: text_columns_def map_columns_def split_def)
qed

text \<open>
  C7. On a frame with distinct column names, the text normalizer applied to its own
  result, with the same date-like columns and the same excluded columns, gives that
  result again.
\<close>

theorem text_normalizer_idempotent:
  assumes "distinct (columns df)"
  shows "text_normalizer lib (text_normalizer lib df date_columns exclude_columns)
           date_columns exclude_columns =
         text_normalizer lib df date_columns exclude_columns"
proof -
  let ?g = "\<lambda>(n::string) s. if n \<notin> set exclude_columns
                              then normalize_series lib (n \<in> set date_columns) s else s"
  let ?df = "map_columns ?g (text_columns df) df"
  have once: "text_normalizer lib df date_columns exclude_columns = ?df"
    using assms by (rule text_normalizer_table)
  have d: "distinct (columns ?df)"
    using assms by (simp add: columns_map_columns)
  have tc: "text_columns ?df = text_columns df"
    using assms by (rule text_columns_map_columns) (simp add: dtype_normalize_series)
  have "text_normalizer lib ?df date_columns exclude_columns =
          map_columns ?g (text_columns ?df) ?df"
    using d by (rule text_normalizer_table)
  also have "\<dots> = map_columns ?g (text_columns df) ?df"
    by (simp only: tc)
  also have "\<dots> = map_columns (\<lambda>n s. ?g n (?g n s)) (text_columns df) df"
    by (rule map_columns_twice)
  also have "(\<lambda>n s. ?g n (?g n s)) = ?g"
    by (intro ext) (simp add: normalize_series_idem)
  finally show ?thesis
    by (simp only: once)
qed

theorem text_normalizer_idempotent_witness:
  "distinct (columns stamped_table) \<and>
   text_normalizer example_lib
     (text_normalizer example_lib stamped_table [''timestamp''] [''ID''])
     [''timestamp''] [''ID''] =
   text_normalizer example_lib stamped_table [''timestamp''] [''ID'']"
proof -
  have h: "distinct (columns stamped_table)" by code_simp
  show ?thesis
    using h text_normalizer_idempotent [OF h, of example_lib "[''timestamp'']" "[''ID'']"]
    by blast
qed

text \<open>
  C6. In a frame with distinct column names, take a text column (its dtype is object)
  that is not excluded and not date-like. After the text normalizer each of its cells
  is the trimmed, lower-cased string form of the cell before, except that a cell whose
  trimmed, lower-cased string form is \<^verbatim>\<open>nan\<close> or \<^verbatim>\<open>none\<close> is the missing marker: the
  comparison is made on the lower-cased text, so \<^verbatim>\<open>NaN\<close> and \<^verbatim>\<open>None\<close> are caught, and
  neither literal text is left in the column.
\<close>

theorem sentinel_text_becomes_missing:
  assumes "distinct (columns df)" and "get_column df col = Some s" and "dtype s = Object"
    and "col \<notin> set exclude_columns" and "col \<notin> set date_columns"
  shows "\<exists>s'. get_column (text_normalizer lib df date_columns exclude_columns) col = Some s' \<and>
           cells s' =
             map (\<lambda>v. if lower (strip (py_str lib v)) = ''nan'' \<or>
                          lower (strip (py_str lib v)) = ''none''
                       then Missing
                       else Str (lower (strip (py_str lib v)))) (cells s) \<and>
           Str ''nan'' \<notin> set (cells s') \<and> Str ''none'' \<notin> set (cells s')"
proof -
  let ?s' = "normalize_series lib False s"
  have g: "get_column (text_normalizer lib df date_columns exclude_columns) col = Some ?s'"
    using get_column_text_normalizer [OF assms(1,2), of lib date_columns exclude_columns]
      assms(3,4,5) by simp
  have c: "cells ?s' =
             map (\<lambda>v. if lower (strip (py_str lib v)) = ''nan'' \<or>
                          lower (strip (py_str lib v)) = ''none''
                       then Missing
                       else Str (lower (strip (py_str lib v)))) (cells s)"
    by (simp add: normalize_series_cells normalize_value_def)
  have n: "Str ''nan'' \<notin> set (cells ?s')" "Str ''none'' \<notin> set (cells ?s')"
    unfolding c by auto
  show ?thesis using g c n by blast
qed

theorem sentinel_text_becomes_missing_witness:
  "distinct (columns events_table) \<and>
   get_column events_table ''Name'' = Some (Series Object [Str '' Bob'', Str ''NaN'', Str ''None'']) \<and>
   dtype (Series Object [Str '' Bob'', Str ''NaN'', Str ''None'']) = Object \<and>
   ''Name'' \<notin> set [''ID''] \<and> ''Name'' \<notin> set [''created'', ''modified''] \<and>
   (\<exists>s'. get_column (text_normalizer example_lib events_table [''created'', ''modified''] [''ID''])
            ''Name'' = Some s' \<and>
         cells s' = [Str ''bob'', Missing, Missing])"
proof -
  have h1: "distinct (columns events_table)" by code_simp
  have h2: "get_column events_table ''Name'' =
              Some (Series Object [Str '' Bob'', Str ''NaN'', Str ''None''])" by code_simp
  have h3: "dtype (Series Object [Str '' Bob'', Str ''NaN'', Str ''None'']) = Object" by simp
  have h4: "''Name'' \<notin> set [''ID'']" by simp
  have h5: "''Name'' \<notin> set [''created'', ''modified'']" by simp
  have ev: "map (\<lambda>v. if lower (strip (py_str example_lib v)) = ''nan'' \<or>
                          lower (strip (py_str example_lib v)) = ''none''
                       then Missing
                       else Str (lower (strip (py_str example_lib v))))
              (cells (Series Object [Str '' Bob'', Str ''NaN'', Str ''None''])) =
            ([Str ''bob'', Missing, Missing] :: (string, string) cell list)" by code_simp
  from sentinel_text_becomes_missing [OF h1 h2 h3 h4 h5, of example_lib]
  obtain s' where
    "get_column (text_normalizer example_lib events_table [''created'', ''modified''] [''ID''])
       ''Name'' = Some s'"
    and "cells s' = map (\<lambda>v. if lower (strip (py_str example_lib v)) = ''nan'' \<or>
                          lower (strip (py_str example_lib v)) = ''none''
                       then Missing
                       else Str (lower (strip (py_str example_lib v))))
              (cells (Series Object [Str '' Bob'', Str ''NaN'', Str ''None'']))"
    by blast
  then show ?thesis using h1 h2 h3 h4 h5 ev by simp
qed

text \<open>
  C5, as the specification words it: every column of the date-like set goes through
  the text normalizer with its cells unmodified. The program does otherwise on a
  date-like column that is still a text column (line 69 left it so): the column
  \<^verbatim>\<open>timestamp\<close> with the cells \<^verbatim>\<open>" 2023-01-05 "\<close>, \<^verbatim>\<open>"None"\<close>, \<^verbatim>\<open>"none"\<close> comes out
  as \<^verbatim>\<open>"2023-01-05"\<close>, \<^verbatim>\<open>"None"\<close> and the missing marker.
\<close>

theorem date_column_passthrough_counterexample:
  "\<not> (get_column (text_normalizer example_lib stamped_table [''timestamp''] [''ID''])
         ''timestamp'' =
       get_column stamped_table ''timestamp'')"
  by code_simp

text \<open>
  The pipeline reaches that case when line 69 catches a failure of the conversion: the
  column \<^verbatim>\<open>timestamp\<close> is date-like by its name, stays a text column, and is trimmed
  and sentinel-replaced by the loop of line 96.
\<close>

lemma date_column_text_reached:
  "detect_date_columns raising_lib stamped_table = [''timestamp''] \<and>
   get_column (normalized_table raising_lib stamped_table [''ID'']) ''timestamp'' =
     Some (Series Object [Str ''2023-01-05'', Str ''None'', Missing])"
  by code_simp

text \<open>
  C5, amended. In a frame with distinct column names, a column of the exclusion set,
  and a column that is not a text column (such as a date-like column that the date
  normalizer converted), goes through the text normalizer with every cell unmodified.
  A date-like column that is still a text column and is not excluded is rewritten:
  each cell becomes its trimmed string form, or the missing marker when that form is
  \<^verbatim>\<open>nan\<close> or \<^verbatim>\<open>none\<close>; only the lower-casing is left out.
\<close>

theorem text_normalizer_passthrough:
  assumes "distinct (columns df)" and "get_column df col = Some s"
  shows "(col \<in> set exclude_columns \<or> dtype s \<noteq> Object \<longrightarrow>
            get_column (text_normalizer lib df date_columns exclude_columns) col = Some s) \<and>
         (col \<in> set date_columns \<and> col \<notin> set exclude_columns \<and> dtype s = Object \<longrightarrow>
            get_column (text_normalizer lib df date_columns exclude_columns) col =
              Some (Series Object
                (map (\<lambda>v. if strip (py_str lib v) = ''nan'' \<or> strip (py_str lib v) = ''none''
                          then Missing
                          else Str (strip (py_str lib v))) (cells s))))"
  using get_column_text_normalizer [OF assms, of lib date_columns exclude_columns]
  by (auto simp: normalize_series_cells normalize_value_def)

theorem text_normalizer_passthrough_witness:
  "distinct (columns stamped_table) \<and>
   get_column stamped_table ''ID'' = Some (Series Object [Str '' Ab1 '', Str ''NaN'', Str ''cD2'']) \<and>
   ''ID'' \<in> set [''ID''] \<and>
   get_column (text_normalizer example_lib stamped_table [''timestamp''] [''ID'']) ''ID'' =
     Some (Series Object [Str '' Ab1 '', Str ''NaN'', Str ''cD2'']) \<and>
   get_column stamped_table ''timestamp'' =
     Some (Series Object [Str '' 2023-01-05 '', Str ''None'', Str ''none'']) \<and>
   ''timestamp'' \<in> set [''timestamp''] \<and> ''timestamp'' \<notin> set [''ID''] \<and>
   get_column (text_normalizer example_lib stamped_table [''timestamp''] [''ID'']) ''timestamp'' =
     Some (Series Object [Str ''2023-01-05'', Str ''None'', Missing])"
proof -
  have h1: "distinct (columns stamped_table)" by code_simp
  have h2: "get_column stamped_table ''ID'' =
              Some (Series Object [Str '' Ab1 '', Str ''NaN'', Str ''cD2''])" by code_simp
  have h3: "''ID'' \<in> set [''ID'']" by simp
  have k2: "get_column stamped_table ''timestamp'' =
              Some (Series Object [Str '' 2023-01-05 '', Str ''None'', Str ''none''])" by code_simp
  have k3: "''timestamp'' \<in> set [''timestamp'']" "''timestamp'' \<notin> set [''ID'']"
    "dtype (Series Object [Str '' 2023-01-05 '', Str ''None'', Str ''none'']) = Object"
    by simp_all
  have ev: "map (\<lambda>v. if strip (py_str example_lib v) = ''nan'' \<or>
                        strip (py_str example_lib v) = ''none''
                     then Missing
                     else Str (strip (py_str example_lib v)))
              (cells (Series Object [Str '' 2023-01-05 '', Str ''None'', Str ''none''])) =
            ([Str ''2023-01-05'', Str ''None'', Missing] :: (string, string) cell list)"
    by code_simp
  have r1: "get_column (text_normalizer example_lib stamped_table [''timestamp''] [''ID'']) ''ID'' =
     Some (Series Object [Str '' Ab1 '', Str ''NaN'', Str ''cD2''])"
    using h3 text_normalizer_passthrough [OF h1 h2, of "[''ID'']" example_lib "[''timestamp'']"]
    by blast
  have "get_column (text_normalizer example_lib stamped_table [''timestamp''] [''ID''])
          ''timestamp'' =
        Some (Series Object
          (map (\<lambda>v. if strip (py_str example_lib v) = ''nan'' \<or>
                        strip (py_str example_lib v) = ''none''
                     then Missing
                     else Str (strip (py_str example_lib v)))
              (cells (Series Object [Str '' 2023-01-05 '', Str ''None'', Str ''none'']))))"
    using k3 text_normalizer_passthrough [OF h1 k2, of "[''ID'']" example_lib "[''timestamp'']"]
    by blast
  then have r2: "get_column (text_normalizer example_lib stamped_table [''timestamp''] [''ID''])
          ''timestamp'' = Some (Series Object [Str ''2023-01-05'', Str ''None'', Missing])"
    by (simp only: ev)
  show ?thesis
    using h1 h2 h3 k2 k3 r1 r2 by blast
qed

section \<open>The row reducer\<close>

lemma nrows_take_rows: "nrows (take_rows keep df) = length keep"
  by (simp add: nrows_def take_rows_def)

lemma columns_take_rows: "columns (take_rows keep df) = columns df"
  by (simp add: columns_def take_rows_def split_def comp_def)

lemma row_at_take_rows:
  "i < length keep \<Longrightarrow> row_at (take_rows keep df) i = row_at df (keep ! i)"
  by (simp add: row_at_def take_rows_def split_def comp_def)

lemma rows_take_rows: "rows (take_rows keep df) = map (row_at df) keep"
proof -
  have "map (row_at (take_rows keep df)) [0..<length keep] =
        map (\<lambda>i. row_at df (keep ! i)) [0..<length keep]"
    by (rule map_cong) (simp_all add: row_at_take_rows)
  also have "\<dots> = map (row_at df) (map ((!) keep) [0..<length keep])"
    by (simp add: comp_def)
  also have "\<dots> = map (row_at df) keep"
    by (simp only: map_nth)
  finally show ?thesis
    by (simp add: rows_def nrows_take_rows)
qed

lemma not_all_missing: "list_ex (\<lambda>v. \<not> isna v) row = (\<not> all_missing row)"
  by (simp add: all_missing_def list_ex_iff list_all_iff)

lemma rows_dropna_all:
  "rows (dropna_all df) = filter (\<lambda>row. \<not> all_missing row) (rows df)"
proof -
  have "rows (dropna_all df) =
          map (row_at df) (filter (\<lambda>i. list_ex (\<lambda>v. \<not> isna v) (row_at df i)) [0..<nrows df])"
    unfolding dropna_all_def by (rule rows_take_rows)
  also have "\<dots> = filter (\<lambda>row. \<not> all_missing row) (map (row_at df) [0..<nrows df])"
    by (simp add: filter_map comp_def not_all_missing)
  finally show ?thesis
    by (simp only: rows_def)
qed

lemma keep_first_snoc:
  "keep_first seen (rs @ [r]) =
     keep_first seen rs @ (if r \<in> set seen \<or> r \<in> set rs then [] else [r])"
  by (induction rs arbitrary: seen) auto

lemma first_occurrences:
  "map f (filter (\<lambda>i. \<not> list_ex (\<lambda>j. f j = f i) [0..<i]) [0..<n]) =
     keep_first [] (map f [0..<n])"
proof (induction n)
  case 0
  show ?case by simp
next
  case (Suc n)
  have "(\<not> list_ex (\<lambda>j. f j = f n) [0..<n]) = (f n \<notin> set (map f [0..<n]))"
  proof
    assume a: "\<not> list_ex (\<lambda>j. f j = f n) [0..<n]"
    show "f n \<notin> set (map f [0..<n])"
    proof
      assume "f n \<in> set (map f [0..<n])"
      then obtain j where "j < n" and "f j = f n" by auto
      then have "list_ex (\<lambda>j. f j = f n) [0..<n]"
        unfolding list_ex_iff by auto
      with a show False ..
    qed
  next
    assume b: "f n \<notin> set (map f [0..<n])"
    show "\<not> list_ex (\<lambda>j. f j = f n) [0..<n]"
    proof
      assume "list_ex (\<lambda>j. f j = f n) [0..<n]"
      then obtain j where j: "j < n" and e: "f j = f n"
        unfolding list_ex_iff by auto
      from j have "f j \<in> set (map f [0..<n])" by simp
      then have "f n \<in> set (map f [0..<n])" by (simp only: e)
      with b show False ..
    qed
  qed
  then show ?case
    using Suc by (simp add: keep_first_snoc)
qed

lemma rows_drop_duplicates: "rows (drop_duplicates df) = keep_first [] (rows df)"
proof -
  have "rows (drop_duplicates df) =
          map (row_at df)
            (filter (\<lambda>i. \<not> list_ex (\<lambda>j. row_at df j = row_at df i) [0..<i]) [0..<nrows df])"
    unfolding drop_duplicates_def by (rule rows_take_rows)
  also have "\<dots> = keep_first [] (map (row_at df) [0..<nrows df])"
    by (rule first_occurrences)
  finally show ?thesis
    by (simp only: rows_def)
qed

lemma nrows_reset_index: "nrows (reset_index df) = nrows df"
  by (simp add: reset_index_def nrows_def)

lemma rows_reset_index: "rows (reset_index df) = rows df"
  by (simp add: rows_def nrows_reset_index) (simp add: row_at_def reset_index_def)

lemma columns_reset_index: "columns (reset_index df) = columns df"
  by (simp add: columns_def reset_index_def)

lemma length_rows: "length (rows df) = nrows df"
  by (simp add: rows_def)

lemma wf_take_rows: "wf_table df \<Longrightarrow> wf_table (take_rows keep df)"
  unfolding wf_table_def columns_take_rows nrows_take_rows
  by (simp add: take_rows_def list_all_iff split_def)

lemma wf_reset_index: "wf_table df \<Longrightarrow> wf_table (reset_index df)"
  unfolding wf_table_def columns_reset_index nrows_reset_index
  by (simp add: reset_index_def)

text \<open>
  C3. On a well-formed frame the row reducer works in three steps, in this order. The
  call of line 115 keeps, in order, the rows that have a value other than the missing
  marker. The call of line 122 keeps, of the rows that are left, each row that equals
  no row kept before it (all values equal, in order): the first occurrence stays. The
  call of line 128 numbers the rows that are left 0, 1, 2 and so on. So the rows of
  the result are \<open>reduce_rows\<close> of the rows of the frame; the column names are as they
  were and the result is well formed.
\<close>

theorem row_reducer_rows:
  assumes "wf_table df"
  shows "rows (dropna_all df) = filter (\<lambda>row. \<not> all_missing row) (rows df) \<and>
         rows (drop_duplicates (dropna_all df)) = keep_first [] (rows (dropna_all df)) \<and>
         rows (row_reducer df) = reduce_rows (rows df) \<and>
         tindex (row_reducer df) = map int [0..<length (reduce_rows (rows df))] \<and>
         columns (row_reducer df) = columns df \<and>
         wf_table (row_reducer df)"
proof -
  have r: "rows (row_reducer df) = reduce_rows (rows df)"
    by (simp add: row_reducer_def rows_reset_index rows_drop_duplicates rows_dropna_all
        reduce_rows_def)
  have "nrows (drop_duplicates (dropna_all df)) = length (reduce_rows (rows df))"
    using r by (simp add: length_rows [symmetric] row_reducer_def rows_reset_index)
  then have i: "tindex (row_reducer df) = map int [0..<length (reduce_rows (rows df))]"
    by (simp add: row_reducer_def reset_index_def)
  have c: "columns (row_reducer df) = columns df"
    by (simp add: row_reducer_def columns_reset_index drop_duplicates_def dropna_all_def
        columns_take_rows)
  have w: "wf_table (row_reducer df)"
    using assms
    by (simp add: row_reducer_def drop_duplicates_def dropna_all_def wf_take_rows wf_reset_index)
  show ?thesis
    using r i c w rows_dropna_all [of df] rows_drop_duplicates [of "dropna_all df"] by simp
qed

theorem row_reducer_rows_witness:
  "wf_table names_table \<and>
   rows names_table =
     [[Str ''alice'', FloatV ''5.0''], [Missing, Missing], [Str ''alice'', FloatV ''5.0''],
      [Str ''bob'', Missing], [Missing, Missing]] \<and>
   rows (dropna_all names_table) =
     [[Str ''alice'', FloatV ''5.0''], [Str ''alice'', FloatV ''5.0''], [Str ''bob'', Missing]] \<and>
   rows (row_reducer names_table) = [[Str ''alice'', FloatV ''5.0''], [Str ''bob'', Missing]] \<and>
   tindex (row_reducer names_table) = [0, 1]"
proof -
  have h: "wf_table names_table" by code_simp
  have r0: "rows names_table =
     [[Str ''alice'', FloatV ''5.0''], [Missing, Missing], [Str ''alice'', FloatV ''5.0''],
      [Str ''bob'', Missing], [Missing, Missing]]" by code_simp
  have e1: "filter (\<lambda>row. \<not> all_missing row) (rows names_table) =
     [[Str ''alice'', FloatV ''5.0''], [Str ''alice'', FloatV ''5.0''], [Str ''bob'', Missing]]"
    by code_simp
  have e2: "reduce_rows (rows names_table) =
     [[Str ''alice'', FloatV ''5.0''], [Str ''bob'', Missing]]" by code_simp
  have e3: "map int [0..<length (reduce_rows (rows names_table))] = [0, 1]" by code_simp
  show ?thesis
    using h r0 e1 e2 e3 row_reducer_rows [OF h] by simp
qed

section \<open>The pipeline\<close>

lemma tindex_set_column: "tindex (set_column df col s) = tindex df"
  by (simp add: set_column_def)

lemma tindex_convert_loop: "tindex (fst (convert_loop lib df cols ws)) = tindex df"
  by (induction cols arbitrary: df ws) (simp_all add: tindex_set_column split: option.splits)

lemma tindex_normalize_loop: "tindex (normalize_loop lib df cols ex dc) = tindex df"
  by (induction cols arbitrary: df) (simp_all add: tindex_set_column split: option.splits)

lemma nrows_normalized_table: "nrows (normalized_table lib t ex) = nrows t"
  by (simp add: normalized_table_def nrows_def text_normalizer_def tindex_normalize_loop
      tindex_convert_loop)

lemma clean_dataframe_run:
  assumes "objs h df = Some t0"
  shows "clean_dataframe lib h df ex =
           Some (Suc (Suc (Suc (Suc (nxt h)))),
                 \<lparr> initial_rows = int (nrows t0),
                   initial_cols = int (length (columns t0)),
                   detected_date_columns = detect_date_columns lib t0,
                   detected_text_columns =
                     text_columns (fst (convert_loop lib t0 (detect_date_columns lib t0) [])),
                   all_nan_removed =
                     int (nrows t0) - int (nrows (dropna_all (normalized_table lib t0 ex))),
                   duplicates_removed =
                     int (nrows (dropna_all (normalized_table lib t0 ex))) -
                     int (nrows (drop_duplicates (dropna_all (normalized_table lib t0 ex)))),
                   final_rows = int (nrows (row_reducer (normalized_table lib t0 ex))),
                   final_cols = int (length (columns (row_reducer (normalized_table lib t0 ex)))),
                   total_rows_removed =
                     int (nrows t0) - int (nrows (row_reducer (normalized_table lib t0 ex))) \<rparr>,
                 Heap ((objs h)
                         (nxt h := Some t0,
                          Suc (nxt h) := Some (normalized_table lib t0 ex),
                          Suc (Suc (nxt h)) := Some (dropna_all (normalized_table lib t0 ex)),
                          Suc (Suc (Suc (nxt h))) := Some (drop_duplicates (dropna_all (normalized_table lib t0 ex))),
                          Suc (Suc (Suc (Suc (nxt h)))) := Some (row_reducer (normalized_table lib t0 ex))))
                      (Suc (Suc (Suc (Suc (Suc (nxt h)))))))"
  using assms
  by (simp add: clean_dataframe_def convert_to_datetime_def alloc_def store_def Let_def
      split_def normalized_table_def row_reducer_def)


lemma content_pass_distinct:
  "distinct dc \<Longrightarrow> distinct (content_pass lib df cols dc)"
  by (induction cols arbitrary: dc) (simp_all split: option.splits)

lemma detect_date_columns_distinct:
  "distinct (columns df) \<Longrightarrow> distinct (detect_date_columns lib df)"
  unfolding detect_date_columns_def columns_def
  by (rule content_pass_distinct) (rule distinct_filter)

lemma length_filter_upt: "length (filter P [0..<n]) \<le> n"
  using length_filter_le [of P "[0..<n]"] by simp

lemma nrows_dropna_all_le: "nrows (dropna_all df) \<le> nrows df"
  unfolding dropna_all_def nrows_take_rows by (rule length_filter_upt)

lemma nrows_drop_duplicates_le: "nrows (drop_duplicates df) \<le> nrows df"
  unfolding drop_duplicates_def nrows_take_rows by (rule length_filter_upt)

text \<open>
  C4. For every frame \<open>df\<close> of the store and every exclusion list the pipeline
  returns, and the numbers it reports satisfy: the total of rows removed is the rows
  removed as empty plus the rows removed as duplicates, and the final row count plus
  the total removed is the initial row count. Neither count of removed rows is
  negative.
\<close>

theorem metrics_identities:
  assumes "objs h df = Some t0"
  shows "\<exists>r m h'. clean_dataframe lib h df ex = Some (r, m, h') \<and>
           total_rows_removed m = all_nan_removed m + duplicates_removed m \<and>
           final_rows m + total_rows_removed m = initial_rows m \<and>
           0 \<le> all_nan_removed m \<and> 0 \<le> duplicates_removed m"
proof -
  let ?t3 = "normalized_table lib t0 ex"
  define m where "m =
                 \<lparr> initial_rows = int (nrows t0),
                   initial_cols = int (length (columns t0)),
                   detected_date_columns = detect_date_columns lib t0,
                   detected_text_columns =
                     text_columns (fst (convert_loop lib t0 (detect_date_columns lib t0) [])),
                   all_nan_removed =
                     int (nrows t0) - int (nrows (dropna_all (normalized_table lib t0 ex))),
                   duplicates_removed =
                     int (nrows (dropna_all (normalized_table lib t0 ex))) -
                     int (nrows (drop_duplicates (dropna_all (normalized_table lib t0 ex)))),
                   final_rows = int (nrows (row_reducer (normalized_table lib t0 ex))),
                   final_cols = int (length (columns (row_reducer (normalized_table lib t0 ex)))),
                   total_rows_removed =
                     int (nrows t0) - int (nrows (row_reducer (normalized_table lib t0 ex))) \<rparr>"
  have n6: "nrows (row_reducer ?t3) = nrows (drop_duplicates (dropna_all ?t3))"
    by (simp add: row_reducer_def nrows_reset_index)
  have n4: "nrows (dropna_all ?t3) \<le> nrows t0"
    using nrows_dropna_all_le [of ?t3] by (simp add: nrows_normalized_table)
  have n5: "nrows (drop_duplicates (dropna_all ?t3)) \<le> nrows (dropna_all ?t3)"
    by (rule nrows_drop_duplicates_le)
  have run: "\<exists>r h'. clean_dataframe lib h df ex = Some (r, m, h')"
    unfolding m_def clean_dataframe_run [OF assms] by blast
  have a: "total_rows_removed m = all_nan_removed m + duplicates_removed m"
    unfolding m_def by (simp add: n6)
  have b: "final_rows m + total_rows_removed m = initial_rows m"
    unfolding m_def by simp
  have c: "0 \<le> all_nan_removed m"
    unfolding m_def using n4 by simp
  have d: "0 \<le> duplicates_removed m"
    unfolding m_def using n5 by simp
  show ?thesis
    using run a b c d by blast
qed

theorem metrics_identities_witness:
  "objs orders_heap 0 = Some orders_table \<and>
   (\<exists>r m h'. clean_dataframe example_lib orders_heap 0 [] = Some (r, m, h') \<and>
      initial_rows m = 3 \<and> all_nan_removed m = 1 \<and> duplicates_removed m = 1 \<and>
      total_rows_removed m = 2 \<and> final_rows m = 1)"
proof -
  have h: "objs orders_heap 0 = Some orders_table" by code_simp
  have ev: "map_option (\<lambda>(r, m, h'). (initial_rows m, all_nan_removed m, duplicates_removed m))
              (clean_dataframe example_lib orders_heap 0 []) = Some (3, 1, 1)"
    by code_simp
  from metrics_identities [OF h, of example_lib "[]"]
  obtain r m h' where run: "clean_dataframe example_lib orders_heap 0 [] = Some (r, m, h')"
    and a: "total_rows_removed m = all_nan_removed m + duplicates_removed m"
    and b: "final_rows m + total_rows_removed m = initial_rows m"
    by blast
  from ev run have v: "initial_rows m = 3" "all_nan_removed m = 1" "duplicates_removed m = 1"
    by simp_all
  from a b v have "total_rows_removed m = 2" "final_rows m = 1"
    by simp_all
  with h run v show ?thesis by blast
qed

lemma clean_dataframe_heap:
  assumes "objs h df = Some t0"
  shows "\<exists>m. clean_dataframe lib h df ex =
           Some (Suc (Suc (Suc (Suc (nxt h)))), m,
                 Heap ((objs h)
                         (nxt h := Some t0,
                          Suc (nxt h) := Some (normalized_table lib t0 ex),
                          Suc (Suc (nxt h)) := Some (dropna_all (normalized_table lib t0 ex)),
                          Suc (Suc (Suc (nxt h))) := Some (drop_duplicates (dropna_all (normalized_table lib t0 ex))),
                          Suc (Suc (Suc (Suc (nxt h)))) := Some (row_reducer (normalized_table lib t0 ex))))
                      (Suc (Suc (Suc (Suc (Suc (nxt h)))))))"
  unfolding clean_dataframe_run [OF assms] by blast

text \<open>
  C9. For every frame \<open>df\<close> made before the call and every exclusion list, the
  pipeline returns; after the call the object \<open>df\<close> holds the value it held before,
  as does every other object made before the call; the cleaned frame is a new object,
  at an address other than \<open>df\<close>.
\<close>

theorem caller_table_not_mutated:
  assumes "objs h df = Some t0" and "df < nxt h"
  shows "\<exists>r m h'. clean_dataframe lib h df ex = Some (r, m, h') \<and>
           objs h' df = Some t0 \<and> r \<noteq> df \<and>
           objs h' r = Some (row_reducer (normalized_table lib t0 ex)) \<and>
           (\<forall>a. a < nxt h \<longrightarrow> objs h' a = objs h a)"
proof -
  define H where "H = Heap ((objs h)
                         (nxt h := Some t0,
                          Suc (nxt h) := Some (normalized_table lib t0 ex),
                          Suc (Suc (nxt h)) := Some (dropna_all (normalized_table lib t0 ex)),
                          Suc (Suc (Suc (nxt h))) := Some (drop_duplicates (dropna_all (normalized_table lib t0 ex))),
                          Suc (Suc (Suc (Suc (nxt h)))) := Some (row_reducer (normalized_table lib t0 ex))))
                      (Suc (Suc (Suc (Suc (Suc (nxt h))))))"
  obtain m where run: "clean_dataframe lib h df ex = Some (Suc (Suc (Suc (Suc (nxt h)))), m, H)"
    unfolding H_def using clean_dataframe_heap [OF assms(1)] by blast
  have frame: "objs H a = objs h a" if "a < nxt h" for a
    unfolding H_def using that by simp
  have same: "objs H df = Some t0"
    using frame [OF assms(2)] assms(1) by simp
  have fresh: "Suc (Suc (Suc (Suc (nxt h)))) \<noteq> df"
    using assms(2) by simp
  have res: "objs H (Suc (Suc (Suc (Suc (nxt h))))) = Some (row_reducer (normalized_table lib t0 ex))"
    unfolding H_def by simp
  show ?thesis
    using run same fresh res frame by blast
qed

theorem caller_table_not_mutated_witness:
  "objs orders_heap 0 = Some orders_table \<and> 0 < nxt orders_heap \<and>
   (\<exists>r m h'. clean_dataframe example_lib orders_heap 0 [''Name''] = Some (r, m, h') \<and>
      objs h' 0 = Some orders_table \<and> r \<noteq> 0)"
proof -
  have h1: "objs orders_heap 0 = Some orders_table" by code_simp
  have h2: "0 < nxt orders_heap" by code_simp
  show ?thesis
    using h1 h2 caller_table_not_mutated [OF h1 h2, of example_lib "[''Name'']"] by blast
qed

lemma columns_set_column: "columns (set_column df col s) = columns df"
  by (simp add: columns_def set_column_def comp_def split_def)

lemma columns_convert_loop: "columns (fst (convert_loop lib df cols ws)) = columns df"
  by (induction cols arbitrary: df ws) (simp_all add: columns_set_column split: option.splits)

lemma columns_normalize_loop: "columns (normalize_loop lib df cols ex dc) = columns df"
  by (induction cols arbitrary: df) (simp_all add: columns_set_column split: option.splits)

lemma columns_normalized_table: "columns (normalized_table lib t ex) = columns t"
  by (simp add: normalized_table_def text_normalizer_def columns_normalize_loop
      columns_convert_loop)

lemma columns_row_reducer: "columns (row_reducer df) = columns df"
  by (simp add: row_reducer_def columns_reset_index drop_duplicates_def dropna_all_def
      columns_take_rows)

lemma rows_row_reducer: "rows (row_reducer df) = reduce_rows (rows df)"
  by (simp add: row_reducer_def rows_reset_index rows_drop_duplicates rows_dropna_all
      reduce_rows_def)

lemma subseq_keep_first: "subseq (keep_first seen rs) rs"
proof (induction rs arbitrary: seen)
  case Nil
  show ?case by simp
next
  case (Cons r rs)
  show ?case
  proof (cases "r \<in> set seen")
    case True
    have "subseq (keep_first seen rs) (r # rs)"
      using Cons [of seen] by (rule list_emb_Cons)
    then show ?thesis using True by simp
  next
    case False
    have "subseq (r # keep_first (seen @ [r]) rs) (r # rs)"
      using Cons [of "seen @ [r]"] by (rule subseq_Cons2)
    then show ?thesis using False by simp
  qed
qed

lemma subseq_reduce_rows: "subseq (reduce_rows rs) rs"
  unfolding reduce_rows_def
  by (rule subseq_order.trans [OF subseq_keep_first subseq_filter_left])

lemma cells_normalized_table:
  assumes "distinct (columns t)" and "get_column t c = Some s"
  shows "\<exists>f s'. get_column (normalized_table lib t ex) c = Some s' \<and> cells s' = map f (cells s)"
proof -
  let ?dc = "detect_date_columns lib t"
  let ?g = "\<lambda>(n::string) s. case column_error lib s of None \<Rightarrow> to_datetime_coerce lib s | Some e \<Rightarrow> s"
  let ?t2 = "fst (convert_loop lib t ?dc [])"
  have dc: "distinct ?dc"
    using assms(1) by (rule detect_date_columns_distinct)
  have t2: "?t2 = map_columns ?g ?dc t"
    using assms(1) dc by (rule convert_loop_table)
  define s2 where "s2 = (if c \<in> set ?dc then ?g c s else s)"
  have g2: "get_column ?t2 c = Some s2"
    unfolding t2 s2_def by (simp add: get_column_map_columns assms(2))
  have "\<exists>f1. cells s2 = map f1 (cells s)"
  proof (cases "c \<in> set ?dc \<and> column_error lib s = None")
    case True
    then have "cells s2 =
      map (\<lambda>v. case coerce_value lib v of Some d \<Rightarrow> DateV d | None \<Rightarrow> Missing) (cells s)"
      by (simp add: s2_def to_datetime_coerce_def)
    then show ?thesis by blast
  next
    case False
    then have "s2 = s" by (auto simp: s2_def)
    then have "cells s2 = map (\<lambda>v. v) (cells s)" by simp
    then show ?thesis by blast
  qed
  then obtain f1 where f1: "cells s2 = map f1 (cells s)" ..
  have d2: "distinct (columns ?t2)"
    using assms(1) by (simp add: columns_convert_loop)
  define s3 where "s3 = (if dtype s2 = Object \<and> c \<notin> set ex
                          then normalize_series lib (c \<in> set ?dc) s2 else s2)"
  have g3: "get_column (normalized_table lib t ex) c = Some s3"
    unfolding normalized_table_def s3_def using d2 g2 by (rule get_column_text_normalizer)
  have "\<exists>f2. cells s3 = map f2 (cells s2)"
  proof (cases "dtype s2 = Object \<and> c \<notin> set ex")
    case True
    then have "cells s3 = map (normalize_value lib (c \<in> set ?dc)) (cells s2)"
      by (simp add: s3_def normalize_series_cells)
    then show ?thesis by blast
  next
    case False
    then have "s3 = s2" by (auto simp: s3_def)
    then have "cells s3 = map (\<lambda>v. v) (cells s2)" by simp
    then show ?thesis by blast
  qed
  then obtain f2 where f2: "cells s3 = map f2 (cells s2)" ..
  have "cells s3 = map (f2 \<circ> f1) (cells s)"
    by (simp add: f1 f2)
  with g3 show ?thesis by blast
qed

text \<open>
  C10. For every well-formed frame and every exclusion list, the cleaned frame has the
  column names of the input, in the same order. Its rows are a subsequence of the rows
  of the working frame at line 114, so the rows that survive keep their relative
  order; that working frame has the rows of the input in place: as many rows, the same
  column names, and each of its columns is the input column rewritten cell by cell.
\<close>

theorem columns_and_row_order_preserved:
  assumes "objs h df = Some t0" and "wf_table t0"
  shows "\<exists>r m h' t'. clean_dataframe lib h df ex = Some (r, m, h') \<and>
           objs h' r = Some t' \<and>
           columns t' = columns t0 \<and>
           subseq (rows t') (rows (normalized_table lib t0 ex)) \<and>
           nrows (normalized_table lib t0 ex) = nrows t0 \<and>
           columns (normalized_table lib t0 ex) = columns t0 \<and>
           (\<forall>c s. get_column t0 c = Some s \<longrightarrow>
              (\<exists>f s'. get_column (normalized_table lib t0 ex) c = Some s' \<and>
                       cells s' = map f (cells s)))"
proof -
  let ?n = "normalized_table lib t0 ex"
  define H where "H = Heap ((objs h)
                         (nxt h := Some t0,
                          Suc (nxt h) := Some (normalized_table lib t0 ex),
                          Suc (Suc (nxt h)) := Some (dropna_all (normalized_table lib t0 ex)),
                          Suc (Suc (Suc (nxt h))) := Some (drop_duplicates (dropna_all (normalized_table lib t0 ex))),
                          Suc (Suc (Suc (Suc (nxt h)))) := Some (row_reducer (normalized_table lib t0 ex))))
                      (Suc (Suc (Suc (Suc (Suc (nxt h))))))"
  obtain m where run: "clean_dataframe lib h df ex = Some (Suc (Suc (Suc (Suc (nxt h)))), m, H)"
    unfolding H_def using clean_dataframe_heap [OF assms(1)] by blast
  have res: "objs H (Suc (Suc (Suc (Suc (nxt h))))) = Some (row_reducer ?n)"
    unfolding H_def by simp
  have c: "columns (row_reducer ?n) = columns t0"
    by (simp add: columns_row_reducer columns_normalized_table)
  have o: "subseq (rows (row_reducer ?n)) (rows ?n)"
    unfolding rows_row_reducer by (rule subseq_reduce_rows)
  have d: "distinct (columns t0)"
    using assms(2) by (simp add: wf_table_def)
  have cw: "\<forall>c s. get_column t0 c = Some s \<longrightarrow>
              (\<exists>f s'. get_column ?n c = Some s' \<and> cells s' = map f (cells s))"
    using cells_normalized_table [OF d] by blast
  show ?thesis
    using run res c o cw nrows_normalized_table [of lib t0 ex]
      columns_normalized_table [of lib t0 ex]
    by blast
qed

theorem columns_and_row_order_preserved_witness:
  "objs orders_heap 0 = Some orders_table \<and> wf_table orders_table \<and>
   (\<exists>r m h' t'. clean_dataframe example_lib orders_heap 0 [] = Some (r, m, h') \<and>
      objs h' r = Some t' \<and>
      columns t' = [''OrderDate'', ''Name'', ''Qty''] \<and>
      subseq (rows t') (rows (normalized_table example_lib orders_table [])))"
proof -
  have h1: "objs orders_heap 0 = Some orders_table" by code_simp
  have h2: "wf_table orders_table" by code_simp
  have c: "columns orders_table = [''OrderDate'', ''Name'', ''Qty'']" by code_simp
  from columns_and_row_order_preserved [OF h1 h2, of example_lib "[]"]
  obtain r m h' t' where "clean_dataframe example_lib orders_heap 0 [] = Some (r, m, h')"
    and "objs h' r = Some t'"
    and "columns t' = columns orders_table"
    and "subseq (rows t') (rows (normalized_table example_lib orders_table []))"
    by blast
  with h1 h2 c show ?thesis by auto
qed

end
